theory Spec2Isabelle
  imports Complex_Main
begin

section \<open>Gemini Live Assistant: the capture, queue and session pipeline of main.py\<close>

text \<open>
  The program is five asyncio tasks around two \<open>asyncio.Queue\<close>s, a Tk overlay thread, a
  tray thread and a mouse listener. Every loop is \<open>while True\<close>; the embedding gives one
  function per loop body (one iteration), with what the outside world answers (a device
  read, a screen capture, a network send, a receive turn) passed in as an argument, and
  with every call on an external object appended to a trace of effects.
\<close>

subsection \<open>Global settings\<close>

definition CHUNK_SIZE :: nat where
  "CHUNK_SIZE = 1024"

definition ICON_SIZE :: int where
  "ICON_SIZE = 100"

definition MARGIN :: int where
  "MARGIN = 30"

definition GIF_PATH :: string where
  "GIF_PATH = ''assets/loading.gif''"

definition MODEL :: string where
  "MODEL = ''models/gemini-2.0-flash-exp''"

subsection \<open>Python truthiness of an optional string\<close>

text \<open>
  \<open>os.getenv\<close>, \<open>response.data\<close> and \<open>response.text\<close> give a value or \<open>None\<close>;
  \<open>if not v\<close> and \<open>if x := v\<close> test truthiness, under which \<open>None\<close> and the empty
  string (or empty bytes) are both false. \<open>payload\<close> is the value the branch sees.
\<close>

definition payload :: "string option \<Rightarrow> string option" where
  "payload v = (case v of None \<Rightarrow> None | Some x \<Rightarrow> if x = [] then None else Some x)"

definition truthy :: "string option \<Rightarrow> bool" where
  "truthy v = (payload v \<noteq> None)"

subsection \<open>asyncio.Queue\<close>

text \<open>
  The queue of the standard library: \<open>maxsize \<le> 0\<close> means unbounded; \<open>put_nowait\<close> and
  \<open>get_nowait\<close> raise \<open>QueueFull\<close> and \<open>QueueEmpty\<close>; the awaitable \<open>put\<close> and
  \<open>get\<close> suspend the caller while the queue is full or empty (\<open>Blocked\<close>) and otherwise
  do what the \<open>_nowait\<close> variant does, without giving up control.
\<close>

record 'a queue =
  maxsize :: int
  items :: "'a list"

datatype queue_error = QueueFull | QueueEmpty

datatype 'a awaited = Blocked | Ready 'a

definition Queue :: "int \<Rightarrow> 'a queue" where
  "Queue m = \<lparr>maxsize = m, items = []\<rparr>"

definition qsize :: "'a queue \<Rightarrow> nat" where
  "qsize q = length (items q)"

definition empty_queue :: "'a queue \<Rightarrow> bool" where
  "empty_queue q = (items q = [])"

definition full :: "'a queue \<Rightarrow> bool" where
  "full q = (if maxsize q \<le> 0 then False else maxsize q \<le> int (qsize q))"

definition put_nowait :: "'a queue \<Rightarrow> 'a \<Rightarrow> queue_error + 'a queue" where
  "put_nowait q x = (if full q then Inl QueueFull else Inr (q\<lparr>items := items q @ [x]\<rparr>))"

definition get_nowait :: "'a queue \<Rightarrow> queue_error + ('a \<times> 'a queue)" where
  "get_nowait q =
     (case items q of [] \<Rightarrow> Inl QueueEmpty | x # xs \<Rightarrow> Inr (x, q\<lparr>items := xs\<rparr>))"

definition put :: "'a queue \<Rightarrow> 'a \<Rightarrow> 'a queue awaited" where
  "put q x = (case put_nowait q x of Inl e \<Rightarrow> Blocked | Inr q' \<Rightarrow> Ready q')"

definition get :: "'a queue \<Rightarrow> ('a \<times> 'a queue) awaited" where
  "get q = (case get_nowait q of Inl e \<Rightarrow> Blocked | Inr r \<Rightarrow> Ready r)"

subsection \<open>Media chunks, effects and the state of the two objects\<close>

text \<open>
  A chunk is the dict \<open>{"data": ..., "mime_type": ...}\<close>. Bytes and str are both
  \<open>string\<close> here (a list of 8-bit characters).
\<close>

record media_chunk =
  data :: string
  mime_type :: string

datatype photo = PhotoImage nat int

datatype thread_name = OverlayThread | TrayThread

datatype effect =
    StreamRead nat bool
  | CaptureScreen
  | Sleep rat
  | SessionSend media_chunk bool
  | SessionReceive
  | StreamWrite string
  | Print string
  | TkSetup
  | LabelPack
  | Geometry int int
  | Deiconify
  | Withdraw
  | LabelConfigure photo
  | After nat
  | Mainloop
  | ThreadStart thread_name
  | PyAudioInit
  | ClientConstruct
  | ListenerStart
  | LiveConnect string
  | OsExit int

text \<open>
  \<open>StreamRead n f\<close> is \<open>audio_stream.read(n, exception_on_overflow=f)\<close>;
  \<open>SessionSend c ok\<close> is \<open>session.send(input=c)\<close> and whether it returned;
  \<open>TkSetup\<close> stands for \<open>tk.Tk()\<close> and the five window attribute calls after it.
\<close>

record overlay_thread =
  gif_path :: string
  icon_size :: int
  daemon :: bool
  frames :: "photo list"
  current_frame_idx :: nat
  transparent_color :: string
  should_be_visible :: bool
  is_window_hidden :: bool
  tk_calls :: "effect list"

record assistant =
  overlay :: overlay_thread
  audio_in_queue :: "string queue"
  out_queue :: "media_chunk queue"
  is_streaming :: bool
  trace :: "effect list"

text \<open>
  How an iteration of a loop body ends: it completes and the loop goes round again,
  it is suspended on a queue operation that cannot proceed in this state, or an
  exception leaves the body, which ends the \<open>while True\<close> loop and the task.
\<close>

datatype 'a flow = Continue 'a | Suspended 'a | Raised 'a

definition emit :: "effect list \<Rightarrow> assistant \<Rightarrow> assistant" where
  "emit es s = s\<lparr>trace := trace s @ es\<rparr>"

subsection \<open>OverlayThread\<close>

definition OverlayThread_init :: "string \<Rightarrow> int \<Rightarrow> overlay_thread" where
  "OverlayThread_init path sz =
     \<lparr>gif_path = path, icon_size = sz, daemon = True, frames = [],
      current_frame_idx = 0, transparent_color = ''#000000'',
      should_be_visible = True, is_window_hidden = False, tk_calls = []\<rparr>"

definition set_visibility :: "bool \<Rightarrow> overlay_thread \<Rightarrow> overlay_thread" where
  "set_visibility visible ov = ov\<lparr>should_be_visible := visible\<rparr>"

text \<open>
  What is at \<open>gif_path\<close>: nothing, a file \<open>Image.open\<close> rejects, or a file whose
  frames are iterated, where converting a frame may itself raise.
\<close>

datatype frame_source = GoodFrame nat | BadFrame string

datatype gif_file = Missing | Undecodable string | Decodable "frame_source list"

fun process_frames :: "int \<Rightarrow> frame_source list \<Rightarrow> photo list \<Rightarrow> string + photo list" where
  "process_frames sz [] processed_frames = Inr processed_frames"
| "process_frames sz (GoodFrame i # fs) processed_frames =
     process_frames sz fs (processed_frames @ [PhotoImage i sz])"
| "process_frames sz (BadFrame e # fs) processed_frames = Inl e"

definition load_gif :: "gif_file \<Rightarrow> overlay_thread \<Rightarrow> photo list \<times> overlay_thread" where
  "load_gif file ov =
     (case file of
        Missing \<Rightarrow>
          ([], ov\<lparr>tk_calls := tk_calls ov @ [Print (''[Warning] GIF not found at: '' @ gif_path ov)]\<rparr>)
      | Undecodable e \<Rightarrow>
          ([], ov\<lparr>tk_calls := tk_calls ov @ [Print (''[Error] Could not load GIF: '' @ e)]\<rparr>)
      | Decodable fs \<Rightarrow>
          (case process_frames (icon_size ov) fs [] of
             Inl e \<Rightarrow>
               ([], ov\<lparr>tk_calls := tk_calls ov @ [Print (''[Error] Could not load GIF: '' @ e)]\<rparr>)
           | Inr processed_frames \<Rightarrow> (processed_frames, ov)))"

definition update_animation :: "overlay_thread \<Rightarrow> overlay_thread" where
  "update_animation ov =
     (let ov1 =
            (if should_be_visible ov \<and> is_window_hidden ov
             then ov\<lparr>is_window_hidden := False, tk_calls := tk_calls ov @ [Deiconify]\<rparr>
             else if \<not> should_be_visible ov \<and> \<not> is_window_hidden ov
             then ov\<lparr>is_window_hidden := True, tk_calls := tk_calls ov @ [Withdraw]\<rparr>
             else ov);
          ov2 =
            (if should_be_visible ov1 \<and> frames ov1 \<noteq> []
             then ov1\<lparr>current_frame_idx :=
                        (current_frame_idx ov1 + 1) mod length (frames ov1),
                      tk_calls := tk_calls ov1 @
                        [LabelConfigure (frames ov1 ! current_frame_idx ov1)]\<rparr>
             else ov1)
      in ov2\<lparr>tk_calls := tk_calls ov2 @ [After 50]\<rparr>)"

text \<open>
  \<open>run\<close> up to the call of \<open>mainloop\<close>, which does not return and calls
  \<open>update_animation\<close> every 50 ms (\<open>Suspended\<close>: the thread stays in Tk's loop).
  With no frames \<open>run\<close> returns after its print and the thread ends. In
  \<open>update_animation\<close> the index stays below the number of frames, since it starts at 0
  and is advanced modulo that number.
\<close>

definition run_overlay :: "gif_file \<Rightarrow> int \<Rightarrow> int \<Rightarrow> overlay_thread \<Rightarrow> overlay_thread flow" where
  "run_overlay file screen_width screen_height ov =
     (let ov1 = ov\<lparr>tk_calls := tk_calls ov @ [TkSetup]\<rparr>;
          (fs, ov2) = load_gif file ov1;
          ov3 = ov2\<lparr>frames := fs\<rparr>
      in if frames ov3 = []
         then Continue (ov3\<lparr>tk_calls := tk_calls ov3 @ [Print ''No frames loaded for overlay.'']\<rparr>)
         else
           (let x_pos = screen_width - icon_size ov3 - MARGIN;
                y_pos = screen_height - icon_size ov3 - MARGIN;
                ov4 = update_animation
                        (ov3\<lparr>tk_calls := tk_calls ov3 @ [LabelPack, Geometry x_pos y_pos]\<rparr>)
            in Suspended (ov4\<lparr>tk_calls := tk_calls ov4 @ [Mainloop]\<rparr>)))"

fun rendered :: "effect list \<Rightarrow> photo list" where
  "rendered [] = []"
| "rendered (LabelConfigure p # es) = p # rendered es"
| "rendered (e # es) = rendered es"

subsection \<open>GeminiLiveAssistant\<close>

definition GeminiLiveAssistant_init :: "overlay_thread \<Rightarrow> assistant" where
  "GeminiLiveAssistant_init ov =
     \<lparr>overlay = ov, audio_in_queue = Queue 0, out_queue = Queue 5,
      is_streaming = True, trace = [PyAudioInit, ClientConstruct]\<rparr>"

text \<open>
  \<open>_capture_screen\<close> returns the JPEG chunk or raises; the returned dict has two keys,
  so the \<open>if frame\<close> of \<open>screen_loop\<close> is always taken.
\<close>

datatype capture_outcome = Captured string | CaptureRaised string

definition screen_loop_body :: "capture_outcome \<Rightarrow> assistant \<Rightarrow> assistant flow" where
  "screen_loop_body cap s =
     (if is_streaming s then
        (case cap of
           CaptureRaised e \<Rightarrow>
             Continue (emit [CaptureScreen, Print (''[Error] Screen capture: '' @ e), Sleep 1.0] s)
         | Captured b64 \<Rightarrow>
             (let s1 = emit [CaptureScreen] s;
                  frame = \<lparr>data = b64, mime_type = ''image/jpeg''\<rparr>
              in case put (out_queue s1) frame of
                   Blocked \<Rightarrow> Suspended s1
                 | Ready q \<Rightarrow> Continue (emit [Sleep 1.0] (s1\<lparr>out_queue := q\<rparr>))))
      else Continue (emit [Sleep 0.2] s))"

text \<open>
  PyAudio's \<open>Stream.read(num_frames, exception_on_overflow)\<close>: an input overflow raises
  only when the flag is set; any other failure of the device raises whatever the flag.
\<close>

datatype device_condition = Delivered string | Overflowed string | DeviceFailure string

definition stream_read :: "device_condition \<Rightarrow> nat \<Rightarrow> bool \<Rightarrow> string + string" where
  "stream_read dev num_frames exception_on_overflow =
     (case dev of
        Delivered d \<Rightarrow> Inr d
      | Overflowed d \<Rightarrow> if exception_on_overflow then Inl ''Input overflowed'' else Inr d
      | DeviceFailure e \<Rightarrow> Inl e)"

definition mic_loop_body :: "device_condition \<Rightarrow> assistant \<Rightarrow> assistant flow" where
  "mic_loop_body dev s =
     (let exception_on_overflow = False;
          s1 = emit [StreamRead CHUNK_SIZE exception_on_overflow] s
      in case stream_read dev CHUNK_SIZE exception_on_overflow of
           Inl e \<Rightarrow> Raised s1
         | Inr d \<Rightarrow>
             if is_streaming s1 then
               (case put (out_queue s1) \<lparr>data = d, mime_type = ''audio/pcm''\<rparr> of
                  Blocked \<Rightarrow> Suspended s1
                | Ready q \<Rightarrow> Continue (s1\<lparr>out_queue := q\<rparr>))
             else Continue s1)"

definition send_loop_body :: "bool \<Rightarrow> assistant \<Rightarrow> assistant flow" where
  "send_loop_body send_ok s =
     (case get (out_queue s) of
        Blocked \<Rightarrow> Suspended s
      | Ready (msg, q) \<Rightarrow> Continue (emit [SessionSend msg send_ok] (s\<lparr>out_queue := q\<rparr>)))"

text \<open>
  A receive turn: the events the iterator yields, and whether it then ends or raises.
\<close>

record response =
  resp_data :: "string option"
  resp_text :: "string option"

datatype turn_end = Exhausted | Failed

datatype turn = Turn "response list" turn_end

definition on_response :: "response \<Rightarrow> assistant \<Rightarrow> assistant flow" where
  "on_response r s =
     (case payload (resp_data r) of
        Some d \<Rightarrow>
          (case put_nowait (audio_in_queue s) d of
             Inl e \<Rightarrow> Raised s
           | Inr q \<Rightarrow> Continue (s\<lparr>audio_in_queue := q\<rparr>))
      | None \<Rightarrow>
          (case payload (resp_text r) of
             Some t \<Rightarrow> Continue (emit [Print t] s)
           | None \<Rightarrow> Continue s))"

fun handle_responses :: "response list \<Rightarrow> assistant \<Rightarrow> assistant flow" where
  "handle_responses [] s = Continue s"
| "handle_responses (r # rs) s =
     (case on_response r s of
        Continue s1 \<Rightarrow> handle_responses rs s1
      | Suspended s1 \<Rightarrow> Suspended s1
      | Raised s1 \<Rightarrow> Raised s1)"

text \<open>
  \<open>while not q.empty(): q.get_nowait()\<close>. The \<open>QueueEmpty\<close> branch cannot be reached
  behind the test; it stops the loop.
\<close>

function drain :: "'a queue \<Rightarrow> 'a queue" where
  "drain q =
     (if empty_queue q then q
      else (case get_nowait q of Inl e \<Rightarrow> q | Inr (x, q') \<Rightarrow> drain q'))"
  by pat_completeness auto
termination
  by (relation "measure qsize")
     (auto simp: get_nowait_def qsize_def split: list.splits)

definition end_of_turn :: "turn_end \<Rightarrow> assistant \<Rightarrow> assistant" where
  "end_of_turn e s =
     (case e of
        Exhausted \<Rightarrow> s\<lparr>audio_in_queue := drain (audio_in_queue s)\<rparr>
      | Failed \<Rightarrow> s)"

text \<open>
  One pass of the \<open>while True\<close> of \<open>receive_loop\<close> with no other task scheduled in
  between. Whatever is raised inside the \<open>try\<close> is swallowed, and the loop goes on.
\<close>

definition receive_loop_body :: "turn \<Rightarrow> assistant \<Rightarrow> assistant flow" where
  "receive_loop_body t s =
     (case t of Turn rs e \<Rightarrow>
        (case handle_responses rs (emit [SessionReceive] s) of
           Continue s1 \<Rightarrow> Continue (end_of_turn e s1)
         | Suspended s1 \<Rightarrow> Continue s1
         | Raised s1 \<Rightarrow> Continue s1))"

definition speaker_loop_body :: "bool \<Rightarrow> assistant \<Rightarrow> assistant flow" where
  "speaker_loop_body write_ok s =
     (case get (audio_in_queue s) of
        Blocked \<Rightarrow> Suspended s
      | Ready (bytestream, q) \<Rightarrow>
          (let s1 = emit [StreamWrite bytestream] (s\<lparr>audio_in_queue := q\<rparr>)
           in if write_ok then Continue s1 else Raised s1))"

text \<open>
  The buttons of \<open>pynput.mouse.Button\<close>. The status line is printed without the
  coloured dot that ends it in the source.
\<close>

datatype button = unknown | left | middle | right | x1 | x2

definition on_mouse_click :: "int \<Rightarrow> int \<Rightarrow> button \<Rightarrow> bool \<Rightarrow> assistant \<Rightarrow> assistant" where
  "on_mouse_click x y b pressed s =
     (if \<not> pressed then s
      else if b = x1 then
        (let s1 = s\<lparr>is_streaming := \<not> is_streaming s\<rparr>;
             s2 = s1\<lparr>overlay := set_visibility (is_streaming s1) (overlay s1)\<rparr>;
             status = (if is_streaming s2 then ''ONLINE (Listening)'' else ''PAUSED'')
         in emit [Print (CHR 0x0A # ''[Status] '' @ status)] s2)
      else s)"

subsection \<open>The guard of the script\<close>

text \<open>
  What the main thread does, what the overlay thread's \<open>run\<close> comes to (when the
  thread is started at all), and the assistant object. \<open>app_run\<close> is \<open>run\<close> up to
  the call that opens the live session.
\<close>

definition app_run :: "effect list" where
  "app_run =
     [ListenerStart,
      Print ''--- Gemini Live Assistant Started ---'',
      Print ''Control: Toggle with [MOUSE BUTTON 4] (Side button)'',
      Print ''Exit: Right-click the system tray icon'',
      Print ''-------------------------------------'',
      LiveConnect MODEL]"

record process =
  main_thread :: "effect list"
  overlay_run :: "overlay_thread flow option"
  app :: "assistant option"

definition main :: "string option \<Rightarrow> gif_file \<Rightarrow> int \<Rightarrow> int \<Rightarrow> process" where
  "main API_KEY file screen_width screen_height =
     (if \<not> truthy API_KEY then
        \<lparr>main_thread =
           [Print ''ERROR: GEMINI_API_KEY not found in .env file.'',
            Print ''Please create a .env file with your key.'',
            OsExit 1],
         overlay_run = None, app = None\<rparr>
      else
        (let overlay_thread = OverlayThread_init GIF_PATH ICON_SIZE;
             a = GeminiLiveAssistant_init overlay_thread
         in \<lparr>main_thread =
               [ThreadStart OverlayThread, ThreadStart TrayThread] @ trace a @ app_run,
             overlay_run = Some (run_overlay file screen_width screen_height overlay_thread),
             app = Some a\<rparr>))"

subsection \<open>Schedules\<close>

text \<open>
  The outbound queue seen from outside: a producer's \<open>await out_queue.put(c)\<close>
  completes, or an iteration of \<open>send_loop\<close> completes. An operation that would block
  does not occur in the state where it blocks, so a schedule is feasible exactly when
  \<open>out_run\<close> gives a state.
\<close>

datatype out_event = Put media_chunk | SendIter bool

fun out_step :: "out_event \<Rightarrow> assistant \<Rightarrow> assistant option" where
  "out_step (Put c) s =
     (case put (out_queue s) c of Blocked \<Rightarrow> None | Ready q \<Rightarrow> Some (s\<lparr>out_queue := q\<rparr>))"
| "out_step (SendIter ok) s =
     (case send_loop_body ok s of
        Continue s1 \<Rightarrow> Some s1
      | Suspended s1 \<Rightarrow> None
      | Raised s1 \<Rightarrow> None)"

fun out_run :: "out_event list \<Rightarrow> assistant \<Rightarrow> assistant option" where
  "out_run [] s = Some s"
| "out_run (e # es) s = (case out_step e s of None \<Rightarrow> None | Some s1 \<Rightarrow> out_run es s1)"

fun puts :: "out_event list \<Rightarrow> media_chunk list" where
  "puts [] = []"
| "puts (Put c # es) = c # puts es"
| "puts (SendIter ok # es) = puts es"

fun sent :: "effect list \<Rightarrow> media_chunk list" where
  "sent [] = []"
| "sent (SessionSend c ok # es) = c # sent es"
| "sent (e # es) = sent es"

fun written :: "effect list \<Rightarrow> string list" where
  "written [] = []"
| "written (StreamWrite b # es) = b # written es"
| "written (e # es) = written es"

text \<open>The audio buffers a list of receive events pushes, in order.\<close>

fun audio_of :: "response list \<Rightarrow> string list" where
  "audio_of [] = []"
| "audio_of (r # rs) =
     (case payload (resp_data r) of Some d \<Rightarrow> d # audio_of rs | None \<Rightarrow> audio_of rs)"

text \<open>\<open>n\<close> iterations of \<open>speaker_loop\<close> whose device writes return.\<close>

fun speaker_iters :: "nat \<Rightarrow> assistant \<Rightarrow> assistant flow" where
  "speaker_iters 0 s = Continue s"
| "speaker_iters (Suc n) s =
     (case speaker_loop_body True s of
        Continue s1 \<Rightarrow> speaker_iters n s1
      | Suspended s1 \<Rightarrow> Suspended s1
      | Raised s1 \<Rightarrow> Raised s1)"

text \<open>
  The whole object under any interleaving: each event is one atomic piece of one task
  or thread, run in the current state whatever came before. \<open>ResumePut c\<close> is a
  producer, suspended in \<open>put\<close> with the chunk \<open>c\<close>, that is woken and tries again.
\<close>

datatype event =
    MicIter device_condition
  | ScreenIter capture_outcome
  | ResumePut media_chunk
  | SenderIter bool
  | RecvResponse response
  | RecvTurnEnd turn_end
  | SpeakerIter bool
  | Click int int button bool
  | Tick

definition state_of :: "'a flow \<Rightarrow> 'a" where
  "state_of f = (case f of Continue s \<Rightarrow> s | Suspended s \<Rightarrow> s | Raised s \<Rightarrow> s)"

fun step :: "event \<Rightarrow> assistant \<Rightarrow> assistant" where
  "step (MicIter d) s = state_of (mic_loop_body d s)"
| "step (ScreenIter c) s = state_of (screen_loop_body c s)"
| "step (ResumePut c) s =
     (case put (out_queue s) c of Blocked \<Rightarrow> s | Ready q \<Rightarrow> s\<lparr>out_queue := q\<rparr>)"
| "step (SenderIter ok) s = state_of (send_loop_body ok s)"
| "step (RecvResponse r) s = state_of (on_response r s)"
| "step (RecvTurnEnd e) s = end_of_turn e s"
| "step (SpeakerIter ok) s = state_of (speaker_loop_body ok s)"
| "step (Click x y b pressed) s = on_mouse_click x y b pressed s"
| "step Tick s = s\<lparr>overlay := update_animation (overlay s)\<rparr>"

fun run :: "event list \<Rightarrow> assistant \<Rightarrow> assistant" where
  "run [] s = s"
| "run (e # es) s = run es (step e s)"

definition initial :: assistant where
  "initial = GeminiLiveAssistant_init (OverlayThread_init GIF_PATH ICON_SIZE)"

text \<open>The completed sender iterations of a schedule: one dequeue each.\<close>

fun gets :: "out_event list \<Rightarrow> nat" where
  "gets [] = 0"
| "gets (Put c # es) = gets es"
| "gets (SendIter ok # es) = Suc (gets es)"

text \<open>
  What the constructor sets up and no event changes: the bounds of the two queues, the
  outbound queue within its bound, and the overlay's flag equal to the streaming flag.
\<close>

definition invariant :: "assistant \<Rightarrow> bool" where
  "invariant s =
     (maxsize (out_queue s) = 5 \<and> qsize (out_queue s) \<le> 5 \<and>
      maxsize (audio_in_queue s) = 0 \<and>
      should_be_visible (overlay s) = is_streaming s)"

text \<open>The events that toggle: a press of the side button x1.\<close>

fun is_toggle :: "event \<Rightarrow> bool" where
  "is_toggle (Click x y b pressed) = (pressed \<and> b = x1)"
| "is_toggle e = False"

text \<open>
  An asset that is missing or cannot be decoded: no file, a file that cannot be opened
  as an image, or a frame whose conversion raises.
\<close>

fun bad_frame :: "frame_source \<Rightarrow> bool" where
  "bad_frame (BadFrame e) = True"
| "bad_frame (GoodFrame i) = False"

fun unloadable :: "gif_file \<Rightarrow> bool" where
  "unloadable Missing = True"
| "unloadable (Undecodable e) = True"
| "unloadable (Decodable fs) = list_ex bad_frame fs"

section \<open>Properties\<close>

subsection \<open>Evaluation and helper lemmas\<close>

lemmas queue_defs =
  Queue_def put_def put_nowait_def full_def qsize_def get_def get_nowait_def empty_queue_def

lemmas init_defs = initial_def GeminiLiveAssistant_init_def OverlayThread_init_def

lemma sent_append: "sent (xs @ ys) = sent xs @ sent ys"
  by (induction xs rule: sent.induct) simp_all

lemma send_loop_body_cases:
  "send_loop_body ok t =
     (case items (out_queue t) of
        [] \<Rightarrow> Suspended t
      | c # cs \<Rightarrow> Continue (t\<lparr>out_queue := (out_queue t)\<lparr>items := cs\<rparr>,
                               trace := trace t @ [SessionSend c ok]\<rparr>))"
  by (simp add: send_loop_body_def get_def get_nowait_def emit_def split: list.splits)

lemma out_step_pipeline:
  "out_step e s = Some s' \<Longrightarrow>
   sent (trace s') @ items (out_queue s') = sent (trace s) @ items (out_queue s) @ puts [e]"
  by (cases e)
     (auto simp: send_loop_body_cases put_def put_nowait_def sent_append
           split: list.splits if_splits)

lemma out_run_pipeline:
  "out_run es s = Some s' \<Longrightarrow>
   sent (trace s') @ items (out_queue s') = sent (trace s) @ items (out_queue s) @ puts es"
proof (induction es arbitrary: s)
  case Nil
  then show ?case by simp
next
  case (Cons e es)
  from Cons.prems obtain s1 where e: "out_step e s = Some s1" and r: "out_run es s1 = Some s'"
    by (auto split: option.splits)
  have "puts (e # es) = puts [e] @ puts es" by (cases e) simp_all
  with Cons.IH[OF r] out_step_pipeline[OF e] show ?case by simp
qed

subsection \<open>The sender is first in, first out\<close>

text \<open>
  C1. Along every feasible schedule of completed enqueues and completed sender
  iterations, the chunks already handed to \<open>session.send\<close>, in the order of the calls,
  followed by the chunks still in the outbound queue, are the chunks that were there at
  the start followed by the chunks enqueued since, in enqueue order: the sender
  transmits in strict enqueue order. One iteration of \<open>send_loop\<close> either finds the
  queue empty and waits, changing nothing, or removes exactly the oldest chunk and
  passes it to \<open>session.send\<close>, whatever its mime type; it never raises.
\<close>

theorem send_loop_fifo:
  "(out_run es s = Some s' \<longrightarrow>
      sent (trace s') @ items (out_queue s') =
      sent (trace s) @ items (out_queue s) @ puts es) \<and>
   (case send_loop_body ok t of
      Continue t' \<Rightarrow>
        (\<exists>c. items (out_queue t) = c # items (out_queue t') \<and>
             trace t' = trace t @ [SessionSend c ok])
    | Suspended t' \<Rightarrow> t' = t \<and> items (out_queue t) = []
    | Raised t' \<Rightarrow> False)"
  by (auto simp: out_run_pipeline send_loop_body_cases split: list.splits)

theorem send_loop_fifo_witness:
  "\<exists>s'. out_run [Put \<lparr>data = ''a1'', mime_type = ''audio/pcm''\<rparr>,
                   Put \<lparr>data = ''i1'', mime_type = ''image/jpeg''\<rparr>,
                   SendIter True,
                   Put \<lparr>data = ''a2'', mime_type = ''audio/pcm''\<rparr>,
                   SendIter False] initial = Some s' \<and>
        sent (trace s') = [\<lparr>data = ''a1'', mime_type = ''audio/pcm''\<rparr>,
                           \<lparr>data = ''i1'', mime_type = ''image/jpeg''\<rparr>] \<and>
        items (out_queue s') = [\<lparr>data = ''a2'', mime_type = ''audio/pcm''\<rparr>]"
proof -
  let ?es = "[Put \<lparr>data = ''a1'', mime_type = ''audio/pcm''\<rparr>,
              Put \<lparr>data = ''i1'', mime_type = ''image/jpeg''\<rparr>,
              SendIter True,
              Put \<lparr>data = ''a2'', mime_type = ''audio/pcm''\<rparr>,
              SendIter False]"
  obtain s' where r: "out_run ?es initial = Some s'"
    by (simp add: init_defs queue_defs send_loop_body_def emit_def)
  have q: "items (out_queue s') = [\<lparr>data = ''a2'', mime_type = ''audio/pcm''\<rparr>]"
    using r by (auto simp add: init_defs queue_defs send_loop_body_def emit_def)
  have "sent (trace initial) = []" "items (out_queue initial) = []"
    by (simp_all add: init_defs queue_defs)
  with send_loop_fifo[of ?es initial s'] q r show ?thesis by simp
qed

subsection \<open>What every event preserves\<close>

declare drain.simps [simp del]

lemma drain_eq: "drain q = q\<lparr>items := []\<rparr>"
proof (induction q rule: drain.induct)
  case (1 q)
  show ?case
  proof (cases "items q")
    case Nil
    then have "drain q = q" by (subst drain.simps) (simp add: empty_queue_def)
    with Nil show ?thesis by (cases q) simp
  next
    case (Cons x xs)
    then have g: "get_nowait q = Inr (x, q\<lparr>items := xs\<rparr>)" "\<not> empty_queue q"
      by (simp_all add: get_nowait_def empty_queue_def)
    then have "drain q = drain (q\<lparr>items := xs\<rparr>)" by (subst drain.simps) simp
    with "1.IH"[OF g(2) g(1) refl] show ?thesis by simp
  qed
qed

lemma drain_items: "items (drain q) = [] \<and> maxsize (drain q) = maxsize q"
  by (simp add: drain_eq)

lemma update_animation_visible:
  "should_be_visible (update_animation ov) = should_be_visible ov"
  by (simp add: update_animation_def Let_def)

lemma invariant_initial: "invariant initial"
  by (simp add: invariant_def init_defs queue_defs)

lemma invariant_mic: "invariant s \<Longrightarrow> invariant (state_of (mic_loop_body d s))"
  by (auto simp: invariant_def mic_loop_body_def state_of_def emit_def Let_def queue_defs
           split: sum.splits awaited.splits if_splits)

lemma invariant_screen: "invariant s \<Longrightarrow> invariant (state_of (screen_loop_body c s))"
  by (auto simp: invariant_def screen_loop_body_def state_of_def emit_def Let_def queue_defs
           split: capture_outcome.splits awaited.splits if_splits)

lemma invariant_resume:
  "invariant s \<Longrightarrow>
   invariant (case put (out_queue s) c of Blocked \<Rightarrow> s | Ready q \<Rightarrow> s\<lparr>out_queue := q\<rparr>)"
  by (auto simp: invariant_def queue_defs split: if_splits)

lemma invariant_send: "invariant s \<Longrightarrow> invariant (state_of (send_loop_body ok s))"
  by (auto simp: invariant_def send_loop_body_cases state_of_def qsize_def split: list.splits)

lemma invariant_response: "invariant s \<Longrightarrow> invariant (state_of (on_response r s))"
  by (auto simp: invariant_def on_response_def state_of_def emit_def queue_defs
           split: option.splits sum.splits if_splits)

lemma invariant_turn_end: "invariant s \<Longrightarrow> invariant (end_of_turn e s)"
  by (cases e) (simp_all add: invariant_def end_of_turn_def drain_items)

lemma invariant_speaker: "invariant s \<Longrightarrow> invariant (state_of (speaker_loop_body ok s))"
  by (auto simp: invariant_def speaker_loop_body_def state_of_def emit_def Let_def queue_defs
           split: list.splits)

lemma invariant_click: "invariant s \<Longrightarrow> invariant (on_mouse_click x y b p s)"
  by (simp add: invariant_def on_mouse_click_def set_visibility_def emit_def Let_def)

lemma invariant_tick: "invariant s \<Longrightarrow> invariant (s\<lparr>overlay := update_animation (overlay s)\<rparr>)"
  by (simp add: invariant_def update_animation_visible)

lemma invariant_step: "invariant s \<Longrightarrow> invariant (step e s)"
  by (cases e)
     (simp_all only: step.simps invariant_mic invariant_screen invariant_resume invariant_send
        invariant_response invariant_turn_end invariant_speaker invariant_click invariant_tick)

lemma invariant_run: "invariant s \<Longrightarrow> invariant (run es s)"
  by (induction es arbitrary: s) (simp_all add: invariant_step)

lemma out_step_bound:
  "out_step e s = Some s' \<Longrightarrow> maxsize (out_queue s) = 5 \<Longrightarrow> qsize (out_queue s) \<le> 5 \<Longrightarrow>
   maxsize (out_queue s') = 5 \<and> qsize (out_queue s') \<le> 5 \<and>
   length (sent (trace s')) = length (sent (trace s)) + gets [e]"
  by (cases e)
     (auto simp: send_loop_body_cases queue_defs sent_append split: list.splits if_splits)

lemma out_run_bound:
  "out_run es s = Some s' \<Longrightarrow> maxsize (out_queue s) = 5 \<Longrightarrow> qsize (out_queue s) \<le> 5 \<Longrightarrow>
   qsize (out_queue s') \<le> 5 \<and> length (sent (trace s')) = length (sent (trace s)) + gets es"
proof (induction es arbitrary: s)
  case Nil
  then show ?case by simp
next
  case (Cons e es)
  from Cons.prems(1) obtain s1 where e: "out_step e s = Some s1" and r: "out_run es s1 = Some s'"
    by (auto split: option.splits)
  have g: "gets (e # es) = gets [e] + gets es" by (cases e) simp_all
  from out_step_bound[OF e Cons.prems(2,3)] Cons.IH[OF r] g show ?case by simp
qed

subsection \<open>The outbound queue holds at most five chunks\<close>

text \<open>
  C4. \<open>out_queue\<close> is built with \<open>maxsize=5\<close>, and under every interleaving of the
  tasks, the listener and the overlay its bound stays 5 and its length stays at most 5.
  When it holds 5 chunks a further \<open>put\<close> blocks, and it goes through once an iteration
  of the sender has taken a chunk out. In every feasible schedule the number of
  completed enqueues is at most 5 more than the number of completed dequeues: the sixth
  enqueue completes only after a dequeue.
\<close>

theorem out_queue_capacity:
  "maxsize (out_queue (run evs initial)) = 5 \<and>
   qsize (out_queue (run evs initial)) \<le> 5 \<and>
   (qsize (out_queue (run evs initial)) = 5 \<longrightarrow>
      put (out_queue (run evs initial)) c = Blocked \<and>
      out_step (Put c) (run evs initial) = None \<and>
      (\<exists>s1 s2. out_step (SendIter ok) (run evs initial) = Some s1 \<and>
               out_step (Put c) s1 = Some s2 \<and> qsize (out_queue s2) = 5)) \<and>
   (out_run es initial = Some s' \<longrightarrow>
      qsize (out_queue s') \<le> 5 \<and> length (puts es) \<le> 5 + gets es)"
proof -
  let ?s = "run evs initial"
  have inv: "invariant ?s"
    by (rule invariant_run) (rule invariant_initial)
  then have m: "maxsize (out_queue ?s) = 5" and b: "qsize (out_queue ?s) \<le> 5"
    by (simp_all add: invariant_def)
  have blocked: "put (out_queue ?s) c = Blocked \<and> out_step (Put c) ?s = None \<and>
      (\<exists>s1 s2. out_step (SendIter ok) ?s = Some s1 \<and>
               out_step (Put c) s1 = Some s2 \<and> qsize (out_queue s2) = 5)"
    if five: "qsize (out_queue ?s) = 5"
  proof -
    from five obtain x xs where xs: "items (out_queue ?s) = x # xs" "length xs = 4"
      by (cases "items (out_queue ?s)") (simp_all add: qsize_def)
    from m five have p: "put (out_queue ?s) c = Blocked"
      by (simp add: queue_defs)
    from xs m show ?thesis
      by (simp add: p send_loop_body_cases queue_defs)
  qed
  have sched: "qsize (out_queue s') \<le> 5 \<and> length (puts es) \<le> 5 + gets es"
    if r: "out_run es initial = Some s'"
  proof -
    have i: "maxsize (out_queue initial) = 5" "qsize (out_queue initial) \<le> 5"
      "sent (trace initial) = []" "items (out_queue initial) = []"
      by (simp_all add: init_defs queue_defs)
    from out_run_bound[OF r i(1,2)] i(3)
    have q: "qsize (out_queue s') \<le> 5" and g: "length (sent (trace s')) = gets es"
      by simp_all
    from out_run_pipeline[OF r] i(3,4)
    have "length (puts es) = length (sent (trace s')) + qsize (out_queue s')"
      by (simp add: qsize_def) (metis length_append)
    with q g show ?thesis by simp
  qed
  from m b blocked sched show ?thesis by blast
qed

theorem out_queue_capacity_witness:
  "qsize (out_queue (run (replicate 5 (MicIter (Delivered ''pcm''))) initial)) = 5 \<and>
   put (out_queue (run (replicate 5 (MicIter (Delivered ''pcm''))) initial))
       \<lparr>data = ''sixth'', mime_type = ''audio/pcm''\<rparr> = Blocked \<and>
   (\<exists>s'. out_run (replicate 5 (Put \<lparr>data = ''pcm'', mime_type = ''audio/pcm''\<rparr>) @
                   [SendIter True, Put \<lparr>data = ''sixth'', mime_type = ''audio/pcm''\<rparr>])
              initial = Some s' \<and> qsize (out_queue s') \<le> 5) \<and>
   out_run (replicate 5 (Put \<lparr>data = ''pcm'', mime_type = ''audio/pcm''\<rparr>) @
            [Put \<lparr>data = ''sixth'', mime_type = ''audio/pcm''\<rparr>]) initial = None"
proof -
  let ?evs = "replicate 5 (MicIter (Delivered ''pcm''))"
  let ?c = "\<lparr>data = ''sixth'', mime_type = ''audio/pcm''\<rparr>"
  let ?es = "replicate 5 (Put \<lparr>data = ''pcm'', mime_type = ''audio/pcm''\<rparr>) @ [SendIter True, Put ?c]"
  have five: "qsize (out_queue (run ?evs initial)) = 5"
    by (simp add: numeral_nat init_defs queue_defs mic_loop_body_def stream_read_def
          state_of_def emit_def Let_def)
  obtain s' where r: "out_run ?es initial = Some s'"
    by (simp add: numeral_nat init_defs queue_defs send_loop_body_def emit_def)
  have n: "out_run (replicate 5 (Put \<lparr>data = ''pcm'', mime_type = ''audio/pcm''\<rparr>) @ [Put ?c])
             initial = None"
    by (simp add: numeral_nat init_defs queue_defs)
  from out_queue_capacity[of ?evs ?c True ?es s'] five r n show ?thesis
    by blast
qed

subsection \<open>Only a press of the side button changes the streaming flag\<close>

lemma emit_fields [simp]:
  "out_queue (emit es s) = out_queue s"
  "audio_in_queue (emit es s) = audio_in_queue s"
  "is_streaming (emit es s) = is_streaming s"
  "overlay (emit es s) = overlay s"
  "trace (emit es s) = trace s @ es"
  by (simp_all add: emit_def)

lemma state_of_simps [simp]:
  "state_of (Continue s) = s"
  "state_of (Suspended s) = s"
  "state_of (Raised s) = s"
  by (simp_all add: state_of_def)

lemma step_flag:
  "\<not> is_toggle e \<Longrightarrow> is_streaming (step e s) = is_streaming s"
proof (cases e)
  case (MicIter d)
  then show ?thesis
    by (auto simp: mic_loop_body_def state_of_def emit_def Let_def
             split: sum.splits awaited.splits)
next
  case (ScreenIter c)
  then show ?thesis
    by (auto simp: screen_loop_body_def state_of_def emit_def Let_def
             split: capture_outcome.splits awaited.splits)
next
  case (ResumePut c)
  then show ?thesis by (simp split: awaited.splits)
next
  case (SenderIter ok)
  then show ?thesis by (simp add: send_loop_body_cases state_of_def split: list.splits)
next
  case (RecvResponse r)
  then show ?thesis
    by (auto simp: on_response_def state_of_def emit_def split: option.splits sum.splits)
next
  case (RecvTurnEnd t)
  then show ?thesis by (cases t) (simp_all add: end_of_turn_def)
next
  case (SpeakerIter ok)
  then show ?thesis
    by (auto simp: speaker_loop_body_def state_of_def emit_def Let_def
             split: awaited.splits)
next
  case (Click x y b p)
  assume "\<not> is_toggle e"
  with Click show ?thesis by (auto simp: on_mouse_click_def)
next
  case Tick
  then show ?thesis by simp
qed

lemma run_flag:
  "filter is_toggle evs = [] \<Longrightarrow> is_streaming (run evs s) = is_streaming s"
proof (induction evs arbitrary: s)
  case Nil
  then show ?case by simp
next
  case (Cons e evs)
  then have "\<not> is_toggle e" "filter is_toggle evs = []"
    by (auto split: if_splits)
  with Cons.IH[of "step e s"] step_flag[of e s] show ?case by simp
qed

subsection \<open>The toggle\<close>

text \<open>
  C5. Two presses of the side button x1 in succession give the streaming flag its
  original value, whatever it was. One press inverts the flag and sets the overlay's
  visibility flag to the new value of the streaming flag; in every state the program
  reaches the two flags are equal, so the press inverts the overlay's visibility as
  well. A release, and a press of any other button, leave the whole state unchanged.
\<close>

theorem on_mouse_click_toggle:
  "is_streaming (on_mouse_click x y x1 True (on_mouse_click x' y' x1 True s)) = is_streaming s \<and>
   is_streaming (on_mouse_click x y x1 True s) = (\<not> is_streaming s) \<and>
   should_be_visible (overlay (on_mouse_click x y x1 True s)) = (\<not> is_streaming s) \<and>
   should_be_visible (overlay (on_mouse_click x y x1 True (run evs initial))) =
     (\<not> should_be_visible (overlay (run evs initial))) \<and>
   on_mouse_click x y b False s = s \<and>
   (b \<noteq> x1 \<longrightarrow> on_mouse_click x y b pressed s = s)"
proof -
  have "invariant (run evs initial)"
    by (rule invariant_run) (rule invariant_initial)
  then have "should_be_visible (overlay (run evs initial)) = is_streaming (run evs initial)"
    by (simp add: invariant_def)
  then show ?thesis
    by (simp add: on_mouse_click_def set_visibility_def emit_def Let_def)
qed

theorem on_mouse_click_toggle_witness:
  "left \<noteq> x1 \<and> on_mouse_click 10 20 left True initial = initial \<and>
   is_streaming (on_mouse_click 10 20 x1 True initial) = False \<and>
   is_streaming (on_mouse_click 10 20 x1 True (on_mouse_click 10 20 x1 True initial)) = True"
  using on_mouse_click_toggle[of 10 20 10 20 initial "[]" left True]
  by (simp add: init_defs)

subsection \<open>Idle while the streaming flag is false\<close>

text \<open>
  C3, as the code has it. An iteration that reads the streaming flag as false enqueues
  nothing: the mic loop still issues its device read (one \<open>StreamRead\<close> is appended
  to the trace) and leaves the outbound queue as it was, and when the read returns the
  iteration completes; the screen loop only sleeps 0.2 s, with no capture and no
  enqueue. The flag is read once per iteration, before the awaited \<open>put\<close>, so this
  says nothing of a \<open>put\<close> that an earlier iteration began while the flag was true.
\<close>

theorem idle_when_not_streaming:
  "\<not> is_streaming s \<Longrightarrow>
     out_queue (state_of (mic_loop_body dev s)) = out_queue s \<and>
     trace (state_of (mic_loop_body dev s)) = trace s @ [StreamRead CHUNK_SIZE False] \<and>
     (\<forall>d. stream_read dev CHUNK_SIZE False = Inr d \<longrightarrow>
          mic_loop_body dev s = Continue (emit [StreamRead CHUNK_SIZE False] s)) \<and>
     screen_loop_body cap s = Continue (emit [Sleep 0.2] s) \<and>
     out_queue (emit [Sleep 0.2] s) = out_queue s"
  by (auto simp: mic_loop_body_def screen_loop_body_def state_of_def emit_def Let_def
           split: sum.splits)

theorem idle_when_not_streaming_witness:
  "\<not> is_streaming (on_mouse_click 0 0 x1 True initial) \<and>
   mic_loop_body (Delivered ''pcm'') (on_mouse_click 0 0 x1 True initial) =
     Continue (emit [StreamRead CHUNK_SIZE False] (on_mouse_click 0 0 x1 True initial)) \<and>
   items (out_queue (state_of (mic_loop_body (Delivered ''pcm'') (on_mouse_click 0 0 x1 True initial)))) = [] \<and>
   screen_loop_body (Captured ''jpg'') (on_mouse_click 0 0 x1 True initial) =
     Continue (emit [Sleep 0.2] (on_mouse_click 0 0 x1 True initial))"
proof -
  let ?s = "on_mouse_click 0 0 x1 True initial"
  have f: "\<not> is_streaming ?s"
    by (simp add: on_mouse_click_def init_defs emit_def Let_def)
  have r: "stream_read (Delivered ''pcm'') CHUNK_SIZE False = Inr ''pcm''"
    by (simp add: stream_read_def)
  have q: "items (out_queue ?s) = []"
    by (simp add: on_mouse_click_def init_defs emit_def Let_def queue_defs)
  from idle_when_not_streaming[OF f, of "Delivered ''pcm''" "Captured ''jpg''"] r q f
  show ?thesis by simp
qed

text \<open>
  The claim as stated, that nothing is enqueued whenever the flag is false, fails. With
  five chunks queued and the flag true, the sixth iteration of the mic loop reads its
  buffer and is suspended in \<open>put\<close>. A press of the side button then sets the flag to
  false, the sender takes one chunk out, and the suspended \<open>put\<close> completes: the
  sixth chunk enters the queue while the flag is false.
\<close>

theorem enqueue_while_not_streaming_counterexample:
  "mic_loop_body (Delivered ''sixth'') (run (replicate 5 (MicIter (Delivered ''pcm''))) initial) =
     Suspended (emit [StreamRead CHUNK_SIZE False]
                  (run (replicate 5 (MicIter (Delivered ''pcm''))) initial)) \<and>
   is_streaming (run (replicate 5 (MicIter (Delivered ''pcm''))) initial) \<and>
   \<not> is_streaming
       (run (replicate 5 (MicIter (Delivered ''pcm'')) @
             [MicIter (Delivered ''sixth''), Click 0 0 x1 True, SenderIter True]) initial) \<and>
   qsize (out_queue
       (run (replicate 5 (MicIter (Delivered ''pcm'')) @
             [MicIter (Delivered ''sixth''), Click 0 0 x1 True, SenderIter True]) initial)) = 4 \<and>
   items (out_queue
       (step (ResumePut \<lparr>data = ''sixth'', mime_type = ''audio/pcm''\<rparr>)
          (run (replicate 5 (MicIter (Delivered ''pcm'')) @
                [MicIter (Delivered ''sixth''), Click 0 0 x1 True, SenderIter True]) initial))) =
     replicate 4 \<lparr>data = ''pcm'', mime_type = ''audio/pcm''\<rparr> @
     [\<lparr>data = ''sixth'', mime_type = ''audio/pcm''\<rparr>]"
  by (simp add: numeral_nat init_defs queue_defs mic_loop_body_def stream_read_def
        send_loop_body_def on_mouse_click_def set_visibility_def Let_def)

subsection \<open>The state at construction\<close>

text \<open>
  C10. The constructor of the assistant sets the streaming flag to true and the
  constructor of the overlay thread sets its visibility flag to true (and the window is
  not marked hidden). Along any sequence of events with no press of the side button
  both stay true.
\<close>

theorem starts_streaming:
  "is_streaming (GeminiLiveAssistant_init ov) \<and>
   should_be_visible (OverlayThread_init path sz) \<and>
   is_streaming initial \<and> should_be_visible (overlay initial) \<and>
   \<not> is_window_hidden (overlay initial) \<and>
   (filter is_toggle evs = [] \<longrightarrow>
      is_streaming (run evs initial) \<and> should_be_visible (overlay (run evs initial)))"
proof -
  have i: "is_streaming initial"
    by (simp add: init_defs)
  have "invariant (run evs initial)"
    by (rule invariant_run) (rule invariant_initial)
  then have "should_be_visible (overlay (run evs initial)) = is_streaming (run evs initial)"
    by (simp add: invariant_def)
  with i run_flag[of evs initial] show ?thesis
    by (simp add: init_defs)
qed

theorem starts_streaming_witness:
  "filter is_toggle [MicIter (Delivered ''pcm''), Click 0 0 x1 False, Click 1 1 left True, Tick] = [] \<and>
   is_streaming (run [MicIter (Delivered ''pcm''), Click 0 0 x1 False, Click 1 1 left True, Tick] initial) \<and>
   should_be_visible (overlay (run [MicIter (Delivered ''pcm''), Click 0 0 x1 False, Click 1 1 left True, Tick] initial))"
  using starts_streaming[of "OverlayThread_init GIF_PATH ICON_SIZE" GIF_PATH ICON_SIZE
          "[MicIter (Delivered ''pcm''), Click 0 0 x1 False, Click 1 1 left True, Tick]"]
  by simp

subsection \<open>The inbound queue: receiver and player\<close>

lemma written_append: "written (xs @ ys) = written xs @ written ys"
  by (induction xs rule: written.induct) simp_all

lemma on_response_unbounded:
  assumes "maxsize (audio_in_queue s) \<le> 0"
  shows "\<exists>s'. on_response r s = Continue s' \<and>
           items (audio_in_queue s') = items (audio_in_queue s) @ audio_of [r] \<and>
           maxsize (audio_in_queue s') = maxsize (audio_in_queue s) \<and>
           written (trace s') = written (trace s)"
  using assms
  by (auto simp: on_response_def put_nowait_def full_def written_append
           split: option.splits)

lemma handle_responses_unbounded:
  "maxsize (audio_in_queue s) \<le> 0 \<Longrightarrow>
   \<exists>s'. handle_responses rs s = Continue s' \<and>
        items (audio_in_queue s') = items (audio_in_queue s) @ audio_of rs \<and>
        maxsize (audio_in_queue s') = maxsize (audio_in_queue s) \<and>
        written (trace s') = written (trace s)"
proof (induction rs arbitrary: s)
  case Nil
  then show ?case by simp
next
  case (Cons r rs)
  from on_response_unbounded[OF Cons.prems, of r] obtain s1 where
    s1: "on_response r s = Continue s1"
        "items (audio_in_queue s1) = items (audio_in_queue s) @ audio_of [r]"
        "maxsize (audio_in_queue s1) = maxsize (audio_in_queue s)"
        "written (trace s1) = written (trace s)"
    by blast
  with Cons.prems have "maxsize (audio_in_queue s1) \<le> 0" by simp
  from Cons.IH[OF this] obtain s' where
    s': "handle_responses rs s1 = Continue s'"
        "items (audio_in_queue s') = items (audio_in_queue s1) @ audio_of rs"
        "maxsize (audio_in_queue s') = maxsize (audio_in_queue s1)"
        "written (trace s') = written (trace s1)"
    by blast
  have "audio_of (r # rs) = audio_of [r] @ audio_of rs"
    by (simp split: option.splits)
  with s1 s' show ?case by simp
qed

lemma speaker_iters_deliver:
  "items (audio_in_queue s) = bs @ rest \<Longrightarrow>
   \<exists>s'. speaker_iters (length bs) s = Continue s' \<and>
        items (audio_in_queue s') = rest \<and>
        written (trace s') = written (trace s) @ bs"
proof (induction bs arbitrary: s)
  case Nil
  then show ?case by simp
next
  case (Cons b bs)
  let ?s1 = "emit [StreamWrite b] (s\<lparr>audio_in_queue := (audio_in_queue s)\<lparr>items := bs @ rest\<rparr>\<rparr>)"
  from Cons.prems have body: "speaker_loop_body True s = Continue ?s1"
    by (simp add: speaker_loop_body_def get_def get_nowait_def Let_def)
  have "items (audio_in_queue ?s1) = bs @ rest" by simp
  from Cons.IH[OF this] obtain s' where
    "speaker_iters (length bs) ?s1 = Continue s'" "items (audio_in_queue s') = rest"
    "written (trace s') = written (trace ?s1) @ bs"
    by blast
  with body show ?case by (simp add: written_append)
qed

text \<open>
  C2. The inbound queue is unbounded (\<open>maxsize \<le> 0\<close>, as constructed and kept by every
  event). When a receive turn ends, its iterator exhausted, the queue is drained to
  length 0 whatever it held: none of the buffers queued before the boundary reaches the
  player. The audio buffers that the events \<open>rs'\<close> of the next turn push after the
  boundary are all in the queue, in order, and as many iterations of the player write
  exactly them to the output stream, in order.
\<close>

theorem turn_end_flushes:
  assumes "maxsize (audio_in_queue s) \<le> 0"
  shows "\<exists>s1 s2 s3.
           receive_loop_body (Turn rs Exhausted) s = Continue s1 \<and>
           items (audio_in_queue s1) = [] \<and>
           items (audio_in_queue (step (RecvTurnEnd Exhausted) s)) = [] \<and>
           handle_responses rs' s1 = Continue s2 \<and>
           items (audio_in_queue s2) = audio_of rs' \<and>
           speaker_iters (length (audio_of rs')) s2 = Continue s3 \<and>
           written (trace s3) = written (trace s) @ audio_of rs' \<and>
           items (audio_in_queue s3) = []"
proof -
  have "maxsize (audio_in_queue (emit [SessionReceive] s)) \<le> 0"
    using assms by simp
  from handle_responses_unbounded[OF this, of rs] obtain t where
    t: "handle_responses rs (emit [SessionReceive] s) = Continue t"
       "maxsize (audio_in_queue t) = maxsize (audio_in_queue s)"
       "written (trace t) = written (trace s)"
    by (auto simp: written_append)
  let ?s1 = "end_of_turn Exhausted t"
  have r: "receive_loop_body (Turn rs Exhausted) s = Continue ?s1"
    by (simp add: receive_loop_body_def t(1))
  have e: "items (audio_in_queue ?s1) = []" "maxsize (audio_in_queue ?s1) \<le> 0"
    "written (trace ?s1) = written (trace s)"
    using t assms by (simp_all add: end_of_turn_def drain_eq)
  from handle_responses_unbounded[OF e(2), of rs'] e obtain s2 where
    s2: "handle_responses rs' ?s1 = Continue s2" "items (audio_in_queue s2) = audio_of rs'"
        "written (trace s2) = written (trace s)"
    by auto
  from speaker_iters_deliver[of s2 "audio_of rs'" "[]"] s2 obtain s3 where
    s3: "speaker_iters (length (audio_of rs')) s2 = Continue s3"
        "items (audio_in_queue s3) = []"
        "written (trace s3) = written (trace s) @ audio_of rs'"
    by auto
  have "items (audio_in_queue (step (RecvTurnEnd Exhausted) s)) = []"
    by (simp add: end_of_turn_def drain_eq)
  with r e(1) s2 s3 show ?thesis by blast
qed

theorem turn_end_flushes_witness:
  "maxsize (audio_in_queue
      (run [RecvResponse \<lparr>resp_data = Some ''old1'', resp_text = None\<rparr>,
            RecvResponse \<lparr>resp_data = Some ''old2'', resp_text = None\<rparr>] initial)) \<le> 0 \<and>
   items (audio_in_queue
      (run [RecvResponse \<lparr>resp_data = Some ''old1'', resp_text = None\<rparr>,
            RecvResponse \<lparr>resp_data = Some ''old2'', resp_text = None\<rparr>] initial)) =
     [''old1'', ''old2''] \<and>
   (\<exists>s1 s2 s3.
      receive_loop_body (Turn [] Exhausted)
        (run [RecvResponse \<lparr>resp_data = Some ''old1'', resp_text = None\<rparr>,
              RecvResponse \<lparr>resp_data = Some ''old2'', resp_text = None\<rparr>] initial) =
        Continue s1 \<and>
      items (audio_in_queue s1) = [] \<and>
      handle_responses [\<lparr>resp_data = Some ''new1'', resp_text = None\<rparr>,
                        \<lparr>resp_data = None, resp_text = Some ''hello''\<rparr>,
                        \<lparr>resp_data = Some ''new2'', resp_text = None\<rparr>] s1 = Continue s2 \<and>
      speaker_iters (length [''new1'', ''new2'']) s2 = Continue s3 \<and>
      written (trace s3) = [''new1'', ''new2''] \<and>
      items (audio_in_queue s3) = [])"
proof -
  let ?s = "run [RecvResponse \<lparr>resp_data = Some ''old1'', resp_text = None\<rparr>,
                 RecvResponse \<lparr>resp_data = Some ''old2'', resp_text = None\<rparr>] initial"
  let ?rs = "[\<lparr>resp_data = Some ''new1'', resp_text = None\<rparr>,
              \<lparr>resp_data = None, resp_text = Some ''hello''\<rparr>,
              \<lparr>resp_data = Some ''new2'', resp_text = None\<rparr>]"
  have h: "maxsize (audio_in_queue ?s) \<le> 0"
    and i: "items (audio_in_queue ?s) = [''old1'', ''old2'']"
    and w: "written (trace ?s) = []"
    by (simp_all add: init_defs queue_defs on_response_def payload_def)
  have a: "audio_of ?rs = [''new1'', ''new2'']"
    by (simp add: payload_def)
  from turn_end_flushes[OF h, of "[]" ?rs, unfolded a w append_Nil] h i show ?thesis
    by blast
qed

text \<open>
  C9. When a receive turn raises before it completes, the flush is skipped: the queue
  then holds what it held before followed by the audio the turn pushed before failing,
  and the player writes all of these buffers, in order. The end of a turn empties a
  non-empty queue only when the iterator was exhausted without error.
\<close>

theorem failed_turn_keeps_audio:
  assumes "maxsize (audio_in_queue s) \<le> 0"
  shows "\<exists>s1 s3.
           receive_loop_body (Turn rs Failed) s = Continue s1 \<and>
           items (audio_in_queue s1) = items (audio_in_queue s) @ audio_of rs \<and>
           speaker_iters (length (items (audio_in_queue s1))) s1 = Continue s3 \<and>
           written (trace s3) = written (trace s) @ items (audio_in_queue s) @ audio_of rs \<and>
           step (RecvTurnEnd Failed) s = s \<and>
           (items (audio_in_queue s) \<noteq> [] \<and> items (audio_in_queue (end_of_turn e s)) = []
              \<longrightarrow> e = Exhausted)"
proof -
  have "maxsize (audio_in_queue (emit [SessionReceive] s)) \<le> 0"
    using assms by simp
  from handle_responses_unbounded[OF this, of rs] obtain t where
    t: "handle_responses rs (emit [SessionReceive] s) = Continue t"
       "items (audio_in_queue t) = items (audio_in_queue s) @ audio_of rs"
       "written (trace t) = written (trace s)"
    by (auto simp: written_append)
  have r: "receive_loop_body (Turn rs Failed) s = Continue t"
    by (simp add: receive_loop_body_def t(1) end_of_turn_def)
  from speaker_iters_deliver[of t "items (audio_in_queue t)" "[]"] t obtain s3 where
    s3: "speaker_iters (length (items (audio_in_queue t))) t = Continue s3"
        "written (trace s3) = written (trace s) @ items (audio_in_queue s) @ audio_of rs"
    by auto
  have "step (RecvTurnEnd Failed) s = s"
    by (simp add: end_of_turn_def)
  moreover have "items (audio_in_queue s) \<noteq> [] \<and> items (audio_in_queue (end_of_turn e s)) = []
              \<longrightarrow> e = Exhausted"
    by (cases e) (simp_all add: end_of_turn_def)
  ultimately show ?thesis using r t(2) s3 by blast
qed

theorem failed_turn_keeps_audio_witness:
  "maxsize (audio_in_queue
      (run [RecvResponse \<lparr>resp_data = Some ''old1'', resp_text = None\<rparr>] initial)) \<le> 0 \<and>
   (\<exists>s1 s3.
      receive_loop_body
        (Turn [\<lparr>resp_data = Some ''part'', resp_text = None\<rparr>] Failed)
        (run [RecvResponse \<lparr>resp_data = Some ''old1'', resp_text = None\<rparr>] initial) =
        Continue s1 \<and>
      items (audio_in_queue s1) = [''old1'', ''part''] \<and>
      speaker_iters (length (items (audio_in_queue s1))) s1 = Continue s3 \<and>
      written (trace s3) = [''old1'', ''part'']) \<and>
   items (audio_in_queue
      (run [RecvResponse \<lparr>resp_data = Some ''old1'', resp_text = None\<rparr>] initial)) \<noteq> [] \<and>
   items (audio_in_queue (end_of_turn Exhausted
      (run [RecvResponse \<lparr>resp_data = Some ''old1'', resp_text = None\<rparr>] initial))) = []"
proof -
  let ?s = "run [RecvResponse \<lparr>resp_data = Some ''old1'', resp_text = None\<rparr>] initial"
  let ?rs = "[\<lparr>resp_data = Some ''part'', resp_text = None\<rparr>]"
  have h: "maxsize (audio_in_queue ?s) \<le> 0"
    and i: "items (audio_in_queue ?s) = [''old1'']"
    and w: "written (trace ?s) = []"
    by (simp_all add: init_defs queue_defs on_response_def payload_def)
  have a: "audio_of ?rs = [''part'']"
    by (simp add: payload_def)
  have d: "items (audio_in_queue (end_of_turn Exhausted ?s)) = []"
    by (simp add: end_of_turn_def drain_eq)
  have n: "items (audio_in_queue ?s) \<noteq> []"
    unfolding i by simp
  from failed_turn_keeps_audio[OF h, of ?rs Exhausted, unfolded a w i append_Nil append_Cons]
    h n d show ?thesis
    by blast
qed

subsection \<open>A failing microphone read\<close>

text \<open>
  C7, as the code has it. Every iteration of \<open>mic_loop\<close> issues its read with
  \<open>exception_on_overflow=False\<close>, so an input overflow does not raise: the iteration
  goes on exactly as for a delivered buffer and is never ended by an exception. The read
  is not inside a \<open>try\<close>: a read that does raise, for any other failure of the
  device, leaves the loop body, which ends \<open>mic_loop\<close>.
\<close>

theorem mic_read_overflow_tolerant:
  "trace (state_of (mic_loop_body dev s)) = trace s @ [StreamRead CHUNK_SIZE False] \<and>
   stream_read (Overflowed d) CHUNK_SIZE False = Inr d \<and>
   (dev = Overflowed d \<or> dev = Delivered d \<longrightarrow>
      mic_loop_body dev s \<noteq> Raised (state_of (mic_loop_body dev s)) \<and>
      (is_streaming s \<and> \<not> full (out_queue s) \<longrightarrow>
         mic_loop_body dev s =
           Continue ((emit [StreamRead CHUNK_SIZE False] s)
             \<lparr>out_queue := (out_queue s)\<lparr>items := items (out_queue s) @
                [\<lparr>data = d, mime_type = ''audio/pcm''\<rparr>]\<rparr>\<rparr>))) \<and>
   (dev = DeviceFailure e \<longrightarrow>
      mic_loop_body dev s = Raised (emit [StreamRead CHUNK_SIZE False] s))"
  by (cases dev)
     (auto simp: mic_loop_body_def stream_read_def Let_def put_def put_nowait_def
           split: awaited.splits)

theorem mic_read_overflow_tolerant_witness:
  "mic_loop_body (Overflowed ''pcm'') initial =
     Continue ((emit [StreamRead CHUNK_SIZE False] initial)
        \<lparr>out_queue := (out_queue initial)\<lparr>items := items (out_queue initial) @
                [\<lparr>data = ''pcm'', mime_type = ''audio/pcm''\<rparr>]\<rparr>\<rparr>) \<and>
   mic_loop_body (DeviceFailure ''Stream closed'') initial =
     Raised (emit [StreamRead CHUNK_SIZE False] initial)"
proof -
  have h: "is_streaming initial \<and> \<not> full (out_queue initial)"
    by (simp add: init_defs queue_defs)
  from mic_read_overflow_tolerant[of "Overflowed ''pcm''" initial "''pcm''" "''x''"]
       mic_read_overflow_tolerant[of "DeviceFailure ''Stream closed''" initial "''pcm''" "''Stream closed''"]
       h
  show ?thesis by simp
qed

text \<open>
  The claim as stated, that no read exception ends the mic loop, fails when the device
  read raises for a reason other than overflow.
\<close>

theorem mic_read_failure_counterexample:
  "mic_loop_body (DeviceFailure ''Stream closed'') initial =
     Raised (emit [StreamRead CHUNK_SIZE False] initial)"
  by (simp add: mic_loop_body_def stream_read_def Let_def)

subsection \<open>Startup\<close>

text \<open>
  C6. When the API key is absent (\<open>None\<close>, or the empty string, which \<open>not API_KEY\<close>
  treats alike) the main thread prints the two lines of diagnostic and calls
  \<open>os._exit(1)\<close>: no thread is started, the assistant and its client are never
  constructed and no session is opened. With a key, the main thread starts the overlay
  thread, then the tray thread, constructs the assistant (PyAudio, then the client) and
  enters the async pipeline, which starts the listener and opens the live session; it
  does not exit with status 1.
\<close>

theorem missing_key_exits:
  "\<not> truthy None \<and>
   (\<not> truthy k \<longrightarrow>
      main_thread (main k file w h) =
        [Print ''ERROR: GEMINI_API_KEY not found in .env file.'',
         Print ''Please create a .env file with your key.'',
         OsExit 1] \<and>
      ClientConstruct \<notin> set (main_thread (main k file w h)) \<and>
      ListenerStart \<notin> set (main_thread (main k file w h)) \<and>
      LiveConnect MODEL \<notin> set (main_thread (main k file w h)) \<and>
      overlay_run (main k file w h) = None \<and> app (main k file w h) = None) \<and>
   (truthy k \<longrightarrow>
      main_thread (main k file w h) =
        [ThreadStart OverlayThread, ThreadStart TrayThread, PyAudioInit, ClientConstruct,
         ListenerStart,
         Print ''--- Gemini Live Assistant Started ---'',
         Print ''Control: Toggle with [MOUSE BUTTON 4] (Side button)'',
         Print ''Exit: Right-click the system tray icon'',
         Print ''-------------------------------------'',
         LiveConnect ''models/gemini-2.0-flash-exp''] \<and>
      ListenerStart \<in> set (main_thread (main k file w h)) \<and>
      LiveConnect MODEL \<in> set (main_thread (main k file w h)) \<and>
      OsExit 1 \<notin> set (main_thread (main k file w h)) \<and>
      overlay_run (main k file w h) =
        Some (run_overlay file w h (OverlayThread_init GIF_PATH ICON_SIZE)) \<and>
      app (main k file w h) = Some initial)"
  by (simp add: main_def Let_def truthy_def payload_def init_defs app_run_def MODEL_def)

theorem missing_key_exits_witness:
  "\<not> truthy None \<and>
   main_thread (main None Missing 1920 1080) =
        [Print ''ERROR: GEMINI_API_KEY not found in .env file.'',
         Print ''Please create a .env file with your key.'',
         OsExit 1] \<and>
   truthy (Some ''key'') \<and>
   main_thread (main (Some ''key'') Missing 1920 1080) =
        [ThreadStart OverlayThread, ThreadStart TrayThread, PyAudioInit, ClientConstruct,
         ListenerStart,
         Print ''--- Gemini Live Assistant Started ---'',
         Print ''Control: Toggle with [MOUSE BUTTON 4] (Side button)'',
         Print ''Exit: Right-click the system tray icon'',
         Print ''-------------------------------------'',
         LiveConnect ''models/gemini-2.0-flash-exp''] \<and>
   app (main (Some ''key'') Missing 1920 1080) = Some initial"
proof -
  have t: "truthy (Some ''key'')" "\<not> truthy None"
    by (simp_all add: truthy_def payload_def)
  from missing_key_exits[of None Missing 1920 1080]
       missing_key_exits[of "Some ''key''" Missing 1920 1080] t
  show ?thesis by simp
qed

subsection \<open>The overlay without its animation\<close>

lemma rendered_append: "rendered (xs @ ys) = rendered xs @ rendered ys"
  by (induction xs rule: rendered.induct) simp_all

lemma process_frames_bad:
  "list_ex bad_frame fs \<Longrightarrow> \<exists>e. process_frames sz fs acc = Inl e"
  by (induction sz fs acc rule: process_frames.induct) simp_all

lemma load_gif_unloadable:
  "unloadable file \<Longrightarrow>
   \<exists>msg. load_gif file ov = ([], ov\<lparr>tk_calls := tk_calls ov @ [Print msg]\<rparr>)"
proof (cases "file")
  case Missing
  show ?thesis
    by (simp only: Missing load_gif_def gif_file.case) blast
next
  case (Undecodable e)
  show ?thesis
    by (simp only: Undecodable load_gif_def gif_file.case) blast
next
  case (Decodable fs)
  assume "unloadable file"
  with Decodable process_frames_bad[of fs "icon_size ov" "[]"] obtain e where
    e: "process_frames (icon_size ov) fs [] = Inl e"
    by auto
  show ?thesis
    by (simp only: Decodable load_gif_def gif_file.case e sum.case) blast
qed

lemma update_animation_no_frames:
  "frames ov = [] \<Longrightarrow>
   frames (update_animation ov) = [] \<and>
   rendered (tk_calls (update_animation ov)) = rendered (tk_calls ov)"
  by (simp add: update_animation_def Let_def rendered_append)

text \<open>
  C8. When the animation file is missing or cannot be decoded, \<open>load_gif\<close> returns the
  empty list; \<open>run\<close> of the overlay thread prints and returns normally with no frames,
  having configured no frame on the label, and a later \<open>update_animation\<close> would
  configure none either; nothing there exits the process. The main thread starts the
  tray thread right after the overlay thread, whatever the asset.
\<close>

theorem missing_asset_no_frames:
  "unloadable file \<Longrightarrow>
     fst (load_gif file ov) = [] \<and>
     (\<exists>msg ov'.
        run_overlay file w h ov = Continue ov' \<and>
        frames ov' = [] \<and>
        tk_calls ov' = tk_calls ov @ [TkSetup, Print msg, Print ''No frames loaded for overlay.''] \<and>
        rendered (tk_calls ov') = rendered (tk_calls ov) \<and>
        rendered (tk_calls (update_animation ov')) = rendered (tk_calls ov)) \<and>
     (truthy k \<longrightarrow>
        (\<exists>ov'. overlay_run (main k file w h) = Some (Continue ov') \<and>
               rendered (tk_calls ov') = []) \<and>
        take 2 (main_thread (main k file w h)) =
          [ThreadStart OverlayThread, ThreadStart TrayThread] \<and>
        OsExit 1 \<notin> set (main_thread (main k file w h)))"
proof -
  assume u: "unloadable file"
  have run: "\<exists>msg ov'.
        run_overlay file w h ov = Continue ov' \<and>
        frames ov' = [] \<and>
        tk_calls ov' = tk_calls ov @ [TkSetup, Print msg, Print ''No frames loaded for overlay.''] \<and>
        rendered (tk_calls ov') = rendered (tk_calls ov) \<and>
        rendered (tk_calls (update_animation ov')) = rendered (tk_calls ov)" for ov
  proof -
    from load_gif_unloadable[OF u, of "ov\<lparr>tk_calls := tk_calls ov @ [TkSetup]\<rparr>"]
    obtain msg where
      l: "load_gif file (ov\<lparr>tk_calls := tk_calls ov @ [TkSetup]\<rparr>) =
            ([], ov\<lparr>tk_calls := tk_calls ov @ [TkSetup] @ [Print msg]\<rparr>)"
      by auto
    let ?ov' = "ov\<lparr>frames := [],
                    tk_calls := tk_calls ov @ [TkSetup, Print msg, Print ''No frames loaded for overlay.'']\<rparr>"
    have r: "run_overlay file w h ov = Continue ?ov'"
      by (simp add: run_overlay_def l Let_def)
    have f: "frames ?ov' = []" by simp
    have "rendered (tk_calls ?ov') = rendered (tk_calls ov)"
      by (simp add: rendered_append)
    with update_animation_no_frames[OF f] r show ?thesis
      by (intro exI[of _ msg] exI[of _ ?ov']) simp
  qed
  from load_gif_unloadable[OF u, of ov] have "fst (load_gif file ov) = []"
    by auto
  moreover
  have "truthy k \<longrightarrow>
        (\<exists>ov'. overlay_run (main k file w h) = Some (Continue ov') \<and>
               rendered (tk_calls ov') = []) \<and>
        take 2 (main_thread (main k file w h)) =
          [ThreadStart OverlayThread, ThreadStart TrayThread] \<and>
        OsExit 1 \<notin> set (main_thread (main k file w h))"
  proof
    assume t: "truthy k"
    from run[of "OverlayThread_init GIF_PATH ICON_SIZE"] obtain ov' where
      "run_overlay file w h (OverlayThread_init GIF_PATH ICON_SIZE) = Continue ov'"
      "rendered (tk_calls ov') = rendered (tk_calls (OverlayThread_init GIF_PATH ICON_SIZE))"
      by blast
    then have "\<exists>ov'. overlay_run (main k file w h) = Some (Continue ov') \<and>
               rendered (tk_calls ov') = []"
      using t by (simp add: main_def Let_def OverlayThread_init_def)
    moreover have "take 2 (main_thread (main k file w h)) =
          [ThreadStart OverlayThread, ThreadStart TrayThread] \<and>
        OsExit 1 \<notin> set (main_thread (main k file w h))"
      using t by (simp add: main_def Let_def GeminiLiveAssistant_init_def app_run_def)
    ultimately show "(\<exists>ov'. overlay_run (main k file w h) = Some (Continue ov') \<and>
               rendered (tk_calls ov') = []) \<and>
        take 2 (main_thread (main k file w h)) =
          [ThreadStart OverlayThread, ThreadStart TrayThread] \<and>
        OsExit 1 \<notin> set (main_thread (main k file w h))"
      by blast
  qed
  ultimately show ?thesis using run[of ov] by blast
qed

theorem missing_asset_no_frames_witness:
  "unloadable Missing \<and>
   unloadable (Decodable [GoodFrame 0, BadFrame ''truncated'']) \<and>
   fst (load_gif (Decodable [GoodFrame 0, BadFrame ''truncated''])
          (OverlayThread_init GIF_PATH ICON_SIZE)) = [] \<and>
   truthy (Some ''key'') \<and>
   (\<exists>ov'. overlay_run (main (Some ''key'') Missing 1920 1080) = Some (Continue ov') \<and>
          rendered (tk_calls ov') = []) \<and>
   take 2 (main_thread (main (Some ''key'') Missing 1920 1080)) =
     [ThreadStart OverlayThread, ThreadStart TrayThread]"
proof -
  have u: "unloadable Missing" "unloadable (Decodable [GoodFrame 0, BadFrame ''truncated''])"
    by simp_all
  have t: "truthy (Some ''key'')"
    by (simp add: truthy_def payload_def)
  from missing_asset_no_frames[OF u(1), of "OverlayThread_init GIF_PATH ICON_SIZE" 1920 1080 "Some ''key''"]
       missing_asset_no_frames[OF u(2), of "OverlayThread_init GIF_PATH ICON_SIZE" 1920 1080 "Some ''key''"]
       u t
  show ?thesis by blast
qed

end
